theory Spec2Isabelle
  imports Main "HOL-Library.Char_ord" "HOL-Library.List_Lexorder"
begin

section \<open>The state manager of sacura (state.go)\<close>

text \<open>
  The file \<^verbatim>\<open>state.go\<close> keeps two ledgers, \<^verbatim>\<open>sent\<close> and \<^verbatim>\<open>received\<close>, each a Go
  \<^verbatim>\<open>map[string][]string\<close> from a partition key to the event IDs recorded under it, and
  derives a textual diff and a report from them.

  Strings are \<^typ>\<open>string\<close> (lists of 8-bit characters). With \<^verbatim>\<open>Char_ord\<close> and
  \<^verbatim>\<open>List_Lexorder\<close> the order on \<^typ>\<open>string\<close> is the lexicographic order on bytes, which
  is the order of Go's \<^verbatim>\<open><\<close> on strings and hence of \<^verbatim>\<open>sort.Strings\<close>. Go's \<^verbatim>\<open>int\<close>
  counters only ever add slice lengths; they are modelled as \<^typ>\<open>nat\<close>.
\<close>

subsection \<open>Data\<close>

definition unknownPartitionKey :: string where
  "unknownPartitionKey = ''unknown''"

text \<open>
  The value of a CloudEvents extension attribute is an \<^verbatim>\<open>interface{}\<close> holding one of the
  attribute types of the CloudEvents SDK. Only the string case is inspected by the code; the
  type assertion \<^verbatim>\<open>v.(string)\<close> panics on every other one.
\<close>

datatype attr_value =
    VString string
  | VInteger int
  | VBoolean bool
  | VBinary "nat list"
  | VURI string
  | VURIRef string
  | VTimestamp int

text \<open>Of \<^verbatim>\<open>ce.Event\<close> the code reads \<^verbatim>\<open>ID()\<close> and \<^verbatim>\<open>Extensions()\<close>.\<close>

record Event =
  ID :: string
  Extensions :: "string \<rightharpoonup> attr_value"

text \<open>
  A ledger. Every slice stored by \<^verbatim>\<open>insert\<close> comes from \<^verbatim>\<open>make\<close> followed by \<^verbatim>\<open>append\<close>, so
  a stored slice is never \<^verbatim>\<open>nil\<close>; the list is the slice's content.
\<close>

type_synonym ledger = "string \<rightharpoonup> string list"

record 'c StateManagerConfig =
  Ordered :: bool
  OrderedConfig :: 'c

text \<open>
  The fields of \<^verbatim>\<open>StateManager\<close> without the lock: every operation below is one critical
  section, modelled as one atomic state transformer. The type \<^verbatim>\<open>Metrics\<close> is opaque to this
  file and is the type parameter \<^typ>\<open>'m\<close>; \<^verbatim>\<open>OrderedConfig\<close> is the parameter \<^typ>\<open>'c\<close>.
\<close>

record ('c, 'm) StateManager =
  received :: ledger
  sent :: ledger
  config :: "'c StateManagerConfig"
  terminated :: bool
  metrics :: 'm

text \<open>
  Modelled from the spec: the struct \<^verbatim>\<open>Report\<close> is declared outside \<^verbatim>\<open>state.go\<close>. Its fields
  are the ones \<^verbatim>\<open>GenerateReport\<close> assigns, with the types of the assigned values. The fields
  \<^verbatim>\<open>ReceivedCount\<close> and \<^verbatim>\<open>Terminated\<close> carry the suffix \<open>_field\<close> here, because the methods
  \<^verbatim>\<open>ReceivedCount\<close> and \<^verbatim>\<open>Terminated\<close> of the manager have the same names. A \<^verbatim>\<open>nil\<close> slice
  stored in one of the maps is recorded as the empty list (both have length 0).
\<close>

record 'm Report =
  LostCount :: nat
  DuplicateCount :: nat
  ReceivedCount_field :: nat
  Metrics :: 'm
  LostEventsByPartitionKey :: "string \<rightharpoonup> string list"
  DuplicateEventsByPartitionKey :: "string \<rightharpoonup> string list"
  ReceivedEventsByPartitionKey :: "string \<rightharpoonup> string list"
  Terminated_field :: bool

datatype error = TypeAssertionPanic

text \<open>
  \<^verbatim>\<open>NewStateManager\<close>: two empty maps, the configuration, and the zero values of the remaining
  fields (\<^verbatim>\<open>false\<close>, and the zero value of \<^verbatim>\<open>Metrics\<close>, passed as \<open>zero\<close>).
\<close>

definition NewStateManager :: "'m \<Rightarrow> 'c StateManagerConfig \<Rightarrow> ('c, 'm) StateManager" where
  "NewStateManager zero cfg =
     \<lparr>received = Map.empty, sent = Map.empty, config = cfg, terminated = False, metrics = zero\<rparr>"

subsection \<open>removeDuplicates\<close>

text \<open>
  The loop of \<^verbatim>\<open>removeDuplicates\<close> over the remaining input, with the seen-set \<open>t\<close> and the two
  output slices as accumulators.
\<close>

fun removeDuplicates_loop ::
  "string list \<Rightarrow> string set \<Rightarrow> string list \<Rightarrow> string list \<Rightarrow> string list \<times> string list" where
  "removeDuplicates_loop [] t result duplicates = (result, duplicates)"
| "removeDuplicates_loop (v # a) t result duplicates =
     (if v \<notin> t
      then removeDuplicates_loop a (insert v t) (result @ [v]) duplicates
      else removeDuplicates_loop a (insert v t) result (duplicates @ [v]))"

definition removeDuplicates :: "string list \<Rightarrow> string list \<times> string list" where
  "removeDuplicates a = removeDuplicates_loop a {} [] []"

subsection \<open>Library functions used by the code\<close>

text \<open>
  \<^verbatim>\<open>sort.Strings\<close> sorts a slice in place in increasing order. Equal strings cannot be told
  apart, so the result is the sorted list of the same elements; on a \<^verbatim>\<open>nil\<close> slice it does
  nothing. A local slice variable that may be \<^verbatim>\<open>nil\<close> is a \<^typ>\<open>string list option\<close>.
\<close>

definition sort_Strings :: "string list \<Rightarrow> string list" where
  "sort_Strings xs = sort xs"

definition slice_elems :: "string list option \<Rightarrow> string list" where
  "slice_elems x = (case x of None \<Rightarrow> [] | Some xs \<Rightarrow> xs)"

text \<open>
  \<^verbatim>\<open>sets.String\<close> of k8s.io/apimachinery: \<^verbatim>\<open>NewString\<close> builds the set of its arguments,
  \<^verbatim>\<open>Difference\<close> is set difference, and \<^verbatim>\<open>List\<close> returns the members as a sorted slice.
\<close>

definition sets_NewString :: "string list \<Rightarrow> string set" where
  "sets_NewString xs = set xs"

definition sets_Difference :: "string set \<Rightarrow> string set \<Rightarrow> string set" where
  "sets_Difference s1 s2 = s1 - s2"

definition sets_List :: "string set \<Rightarrow> string list" where
  "sets_List s = sorted_list_of_set s"

text \<open>
  \<^verbatim>\<open>cmp.Diff\<close> of go-cmp is a parameter \<open>cmpDiff\<close> of the model. Its documented contract is
  that it returns the empty string exactly when \<^verbatim>\<open>cmp.Equal\<close> holds, and two string slices are
  equal for \<^verbatim>\<open>cmp.Equal\<close> when both are \<^verbatim>\<open>nil\<close> or both are not and hold the same elements in
  the same order.
\<close>

type_synonym cmp_Diff = "string list option \<Rightarrow> string list option \<Rightarrow> string"

definition cmp_Diff_contract :: "cmp_Diff \<Rightarrow> bool" where
  "cmp_Diff_contract cmpDiff = (\<forall>x y. (cmpDiff x y = []) = (x = y))"

text \<open>
  A \<^verbatim>\<open>range\<close> loop over a Go map visits every key once, in an order the language leaves
  open. The loops below take the order of the visit as a list of keys; a key of the list
  that the map does not hold is not visited. \<open>range_order m ks\<close> says that \<open>ks\<close> is an order
  in which \<^verbatim>\<open>range m\<close> can run.
\<close>

definition range_order :: "ledger \<Rightarrow> string list \<Rightarrow> bool" where
  "range_order m ks = (distinct ks \<and> set ks = dom m)"

subsection \<open>insert and the two reading loops\<close>

text \<open>
  \<^verbatim>\<open>insert\<close>: the partition key is the sentinel unless the manager is ordered and the event
  has the extension \<^verbatim>\<open>partitionkey\<close>; then it is the extension's value, asserted to be a
  string. The ID is appended to the key's slice, created empty on first use. The result is
  the updated map, or the panic of the type assertion.
\<close>

definition insert_ev :: "Event \<Rightarrow> ledger \<Rightarrow> 'c StateManagerConfig \<Rightarrow> error + ledger" where
  "insert_ev e store cfg =
     (case (if Ordered cfg
            then (case Extensions e ''partitionkey'' of
                    Some v \<Rightarrow> (case v of VString str \<Rightarrow> Inr str | _ \<Rightarrow> Inl TypeAssertionPanic)
                  | None \<Rightarrow> Inr unknownPartitionKey)
            else Inr unknownPartitionKey) of
        Inl err \<Rightarrow> Inl err
      | Inr pk \<Rightarrow>
          (let store1 = (if store pk = None then store(pk \<mapsto> []) else store)
           in Inr (store1(pk \<mapsto> slice_elems (store1 pk) @ [ID e]))))"

text \<open>
  One iteration of the loop of \<^verbatim>\<open>ReadSent\<close> (of \<^verbatim>\<open>ReadReceived\<close>): the event taken from the
  channel is inserted into the sent (received) ledger. A panic is not recovered and ends the
  program.
\<close>

definition ReadSent_step ::
  "Event \<Rightarrow> ('c, 'm) StateManager \<Rightarrow> error + ('c, 'm) StateManager" where
  "ReadSent_step e s =
     (case insert_ev e (sent s) (config s) of
        Inl err \<Rightarrow> Inl err
      | Inr store \<Rightarrow> Inr (s\<lparr>sent := store\<rparr>))"

definition ReadReceived_step ::
  "Event \<Rightarrow> ('c, 'm) StateManager \<Rightarrow> error + ('c, 'm) StateManager" where
  "ReadReceived_step e s =
     (case insert_ev e (received s) (config s) of
        Inl err \<Rightarrow> Inl err
      | Inr store \<Rightarrow> Inr (s\<lparr>received := store\<rparr>))"

text \<open>The loops over the events a channel delivers before it is closed.\<close>

fun ReadSent :: "Event list \<Rightarrow> ('c, 'm) StateManager \<Rightarrow> error + ('c, 'm) StateManager" where
  "ReadSent [] s = Inr s"
| "ReadSent (e # es) s =
     (case ReadSent_step e s of Inl err \<Rightarrow> Inl err | Inr s' \<Rightarrow> ReadSent es s')"

fun ReadReceived :: "Event list \<Rightarrow> ('c, 'm) StateManager \<Rightarrow> error + ('c, 'm) StateManager" where
  "ReadReceived [] s = Inr s"
| "ReadReceived (e # es) s =
     (case ReadReceived_step e s of Inl err \<Rightarrow> Inl err | Inr s' \<Rightarrow> ReadReceived es s')"

subsection \<open>ReceivedCount\<close>

definition ReceivedCount :: "string list \<Rightarrow> ('c, 'm) StateManager \<Rightarrow> nat" where
  "ReceivedCount ks s =
     fold (\<lambda>k count. case received s k of None \<Rightarrow> count | Some v \<Rightarrow> count + length v) ks 0"

subsection \<open>Diff\<close>

text \<open>
  The local \<^verbatim>\<open>sent := v\<close> copies a slice header: \<^verbatim>\<open>sent\<close>, \<^verbatim>\<open>v\<close> and the map entry
  \<^verbatim>\<open>s.sent[k]\<close> share one backing array. The ledger is the store and the key the address:
  \<^verbatim>\<open>sort.Strings(sent)\<close> writes the sorted content to the entry \<open>k\<close> of \<^const>\<open>sent\<close>, and all
  three names read it from there. The slice \<^verbatim>\<open>received\<close> is fresh (made by
  \<^verbatim>\<open>removeDuplicates\<close>) or \<^verbatim>\<open>nil\<close>, so sorting it touches no ledger.
\<close>

definition Sprintf_partitionkey :: "string \<Rightarrow> string \<Rightarrow> string" where
  "Sprintf_partitionkey k diff =
     ''partitionkey: '' @ [CHR 0x27] @ k @ [CHR 0x27] @ '' (-want, +got)'' @ [CHR 0x0A] @ diff"

definition Diff_body ::
  "cmp_Diff \<Rightarrow> string \<Rightarrow> bool \<times> string \<times> ('c, 'm) StateManager
     \<Rightarrow> bool \<times> string \<times> ('c, 'm) StateManager" where
  "Diff_body cmpDiff k acc =
     (case acc of (hasDiff, fullDiff, s) \<Rightarrow>
        (case sent s k of
           None \<Rightarrow> acc
         | Some v \<Rightarrow>
             (let received0 = (case received s k of
                                 Some v' \<Rightarrow> Some (fst (removeDuplicates v'))
                               | None \<Rightarrow> None);
                  sent1 = (if \<not> Ordered (config s) then sort_Strings v else v);
                  s1 = (if \<not> Ordered (config s) then s\<lparr>sent := (sent s)(k \<mapsto> sent1)\<rparr> else s);
                  received1 = (if \<not> Ordered (config s)
                               then map_option sort_Strings received0 else received0);
                  diff = cmpDiff received1 (Some sent1);
                  hasDiff1 = (if diff \<noteq> [] then True else hasDiff)
              in (hasDiff1, fullDiff @ Sprintf_partitionkey k diff, s1))))"

definition Diff ::
  "cmp_Diff \<Rightarrow> string list \<Rightarrow> ('c, 'm) StateManager \<Rightarrow> string \<times> ('c, 'm) StateManager" where
  "Diff cmpDiff ks s =
     (case fold (Diff_body cmpDiff) ks (False, ''Diff by partition key'' @ [CHR 0x0A], s) of
        (hasDiff, fullDiff, s') \<Rightarrow> (if \<not> hasDiff then [] else fullDiff, s'))"

subsection \<open>GenerateReport\<close>

text \<open>
  After the \<^verbatim>\<open>if v, ok := s.received[k]; ok { ... }\<close> statement its \<^verbatim>\<open>v\<close> is out of scope:
  the \<^verbatim>\<open>v\<close> of the last two assignments of the loop body is the loop variable, the slice of
  the sent ledger (sorted in place when the manager is not ordered).
\<close>

definition GenerateReport_body ::
  "string \<Rightarrow> 'm Report \<times> ('c, 'm) StateManager \<Rightarrow> 'm Report \<times> ('c, 'm) StateManager" where
  "GenerateReport_body k acc =
     (case acc of (r, s) \<Rightarrow>
        (case sent s k of
           None \<Rightarrow> acc
         | Some v \<Rightarrow>
             (let (received0, duplicates0) =
                    (case received s k of
                       Some v' \<Rightarrow> (case removeDuplicates v' of (a, b) \<Rightarrow> (Some a, Some b))
                     | None \<Rightarrow> (None, None));
                  sent1 = (if \<not> Ordered (config s) then sort_Strings v else v);
                  s1 = (if \<not> Ordered (config s) then s\<lparr>sent := (sent s)(k \<mapsto> sent1)\<rparr> else s);
                  received1 = (if \<not> Ordered (config s)
                               then map_option sort_Strings received0 else received0);
                  duplicates1 = (if \<not> Ordered (config s)
                                 then map_option sort_Strings duplicates0 else duplicates0);
                  diff = sets_Difference (sets_NewString sent1)
                           (sets_NewString (slice_elems received1));
                  lost = sets_List diff;
                  r1 = r\<lparr>LostEventsByPartitionKey := (LostEventsByPartitionKey r)(k \<mapsto> lost)\<rparr>;
                  r2 = r1\<lparr>LostCount := LostCount r1 + length lost\<rparr>;
                  r3 = r2\<lparr>DuplicateEventsByPartitionKey :=
                            (DuplicateEventsByPartitionKey r2)(k \<mapsto> slice_elems duplicates1)\<rparr>;
                  r4 = r3\<lparr>DuplicateCount := DuplicateCount r3 + length (slice_elems duplicates1)\<rparr>;
                  r5 = r4\<lparr>ReceivedEventsByPartitionKey :=
                            (ReceivedEventsByPartitionKey r4)(k \<mapsto> sent1)\<rparr>;
                  r6 = r5\<lparr>ReceivedCount_field := ReceivedCount_field r5 + length sent1\<rparr>
              in (r6, s1))))"

definition GenerateReport ::
  "string list \<Rightarrow> ('c, 'm) StateManager \<Rightarrow> 'm Report \<times> ('c, 'm) StateManager" where
  "GenerateReport ks s =
     fold GenerateReport_body ks
       (\<lparr>LostCount = 0, DuplicateCount = 0, ReceivedCount_field = 0, Metrics = metrics s,
         LostEventsByPartitionKey = Map.empty, DuplicateEventsByPartitionKey = Map.empty,
         ReceivedEventsByPartitionKey = Map.empty, Terminated_field = terminated s\<rparr>, s)"

subsection \<open>Terminated\<close>

definition Terminated :: "'m \<Rightarrow> ('c, 'm) StateManager \<Rightarrow> ('c, 'm) StateManager" where
  "Terminated m s = s\<lparr>terminated := True, metrics := m\<rparr>"

subsection \<open>Sequences of calls\<close>

text \<open>
  The calls a manager receives, each one critical section: an event arriving on the sent or
  on the received channel, and the four methods. A call that ranges over a map carries the
  order of the visit.
\<close>

datatype 'm call =
    SentEvent Event
  | ReceivedEvent Event
  | CallReceivedCount "string list"
  | CallDiff "string list"
  | CallGenerateReport "string list"
  | CallTerminated 'm

fun exec_call ::
  "cmp_Diff \<Rightarrow> 'm call \<Rightarrow> ('c, 'm) StateManager \<Rightarrow> error + ('c, 'm) StateManager" where
  "exec_call cmpDiff (SentEvent e) s = ReadSent_step e s"
| "exec_call cmpDiff (ReceivedEvent e) s = ReadReceived_step e s"
| "exec_call cmpDiff (CallReceivedCount ks) s = Inr s"
| "exec_call cmpDiff (CallDiff ks) s = Inr (snd (Diff cmpDiff ks s))"
| "exec_call cmpDiff (CallGenerateReport ks) s = Inr (snd (GenerateReport ks s))"
| "exec_call cmpDiff (CallTerminated m) s = Inr (Terminated m s)"

fun exec_calls ::
  "cmp_Diff \<Rightarrow> 'm call list \<Rightarrow> ('c, 'm) StateManager \<Rightarrow> error + ('c, 'm) StateManager" where
  "exec_calls cmpDiff [] s = Inr s"
| "exec_calls cmpDiff (c # cs) s =
     (case exec_call cmpDiff c s of Inl err \<Rightarrow> Inl err | Inr s' \<Rightarrow> exec_calls cmpDiff cs s')"

fun is_CallTerminated :: "'m call \<Rightarrow> bool" where
  "is_CallTerminated (CallTerminated m) = True"
| "is_CallTerminated _ = False"

section \<open>Properties of removeDuplicates\<close>

lemma upt_filter_Suc:
  "filter P [0..<Suc n] = (if P 0 then [0] else []) @ map Suc (filter (P \<circ> Suc) [0..<n])"
proof -
  have "[0..<Suc n] = 0 # map Suc [0..<n]"
    by (simp add: upt_conv_Cons map_Suc_upt del: upt_Suc)
  then show ?thesis by (simp add: filter_map del: upt_Suc)
qed

text \<open>
  The loop, started with seen-set \<open>t\<close>, appends to \<open>result\<close> the elements at the positions
  whose element is neither in \<open>t\<close> nor at an earlier position, and to \<open>duplicates\<close> those at
  the other positions.
\<close>

lemma removeDuplicates_loop_index:
  "removeDuplicates_loop a t r d =
     (r @ map (\<lambda>i. a ! i) (filter (\<lambda>i. a ! i \<notin> t \<union> set (take i a)) [0..<length a]),
      d @ map (\<lambda>i. a ! i) (filter (\<lambda>i. a ! i \<in> t \<union> set (take i a)) [0..<length a]))"
proof (induction a arbitrary: t r d)
  case Nil
  then show ?case by simp
next
  case (Cons v a)
  have eq: "\<And>i. (a ! i \<in> insert v t \<union> set (take i a))
              = (a ! i = v \<or> a ! i \<in> t \<or> a ! i \<in> set (take i a))"
    by auto
  show ?case
    by (simp add: Cons.IH upt_filter_Suc comp_def eq disj_commute disj_left_commute
          conj_commute conj_left_commute del: upt_Suc Un_insert_left)
qed

lemma removeDuplicates_loop_count_fst:
  "count_list (fst (removeDuplicates_loop a t r d)) x =
     count_list r x + (if x \<in> set a \<and> x \<notin> t then 1 else 0)"
  by (induction a arbitrary: t r d) auto

lemma removeDuplicates_loop_count_snd:
  "count_list (snd (removeDuplicates_loop a t r d)) x =
     count_list d x + (count_list a x - (if x \<in> t then 0 else 1))"
  by (induction a arbitrary: t r d) auto

lemma removeDuplicates_loop_distinct:
  "distinct r \<Longrightarrow> set r \<subseteq> t \<Longrightarrow> distinct (fst (removeDuplicates_loop a t r d))"
proof (induction a arbitrary: t r d)
  case Nil
  then show ?case by simp
next
  case (Cons v a)
  show ?case
  proof (cases "v \<in> t")
    case True
    have "distinct (fst (removeDuplicates_loop a (insert v t) r (d @ [v])))"
      using Cons.prems by (intro Cons.IH) auto
    with True show ?thesis by simp
  next
    case False
    have "distinct (fst (removeDuplicates_loop a (insert v t) (r @ [v]) d))"
      using Cons.prems False by (intro Cons.IH) auto
    with False show ?thesis by simp
  qed
qed

lemma removeDuplicates_loop_set:
  "set (fst (removeDuplicates_loop a t r d)) = set r \<union> (set a - t)"
  by (induction a arbitrary: t r d) auto

lemma removeDuplicates_loop_length:
  "length (fst (removeDuplicates_loop a t r d)) + length (snd (removeDuplicates_loop a t r d))
     = length r + length d + length a"
  by (induction a arbitrary: t r d) auto

lemma distinct_fst_removeDuplicates: "distinct (fst (removeDuplicates a))"
  by (simp add: removeDuplicates_def removeDuplicates_loop_distinct)

lemma set_fst_removeDuplicates: "set (fst (removeDuplicates a)) = set a"
  by (simp add: removeDuplicates_def removeDuplicates_loop_set)

lemma length_removeDuplicates:
  "length (fst (removeDuplicates a)) + length (snd (removeDuplicates a)) = length a"
  using removeDuplicates_loop_length [of a "{}" "[]" "[]"] by (simp add: removeDuplicates_def)

text \<open>
  C2. \<^verbatim>\<open>removeDuplicates\<close> returns two sequences. The first holds the elements at the
  positions of first occurrence (the element occurs at no earlier position), in the order of
  the input, and repeats no ID; the second holds the elements at all other positions, in the
  order of the input. An ID that occurs \<open>N > 0\<close> times occurs once in the first and \<open>N - 1\<close>
  times in the second, and an ID that does not occur is in neither. For the input
  \<^verbatim>\<open>["a","a","b","a"]\<close> the result is \<^verbatim>\<open>(["a","b"], ["a","a"])\<close>.
\<close>

theorem removeDuplicates_first_and_repeat_occurrences:
  "fst (removeDuplicates a)
     = map (\<lambda>i. a ! i) (filter (\<lambda>i. a ! i \<notin> set (take i a)) [0..<length a])
   \<and> snd (removeDuplicates a)
     = map (\<lambda>i. a ! i) (filter (\<lambda>i. a ! i \<in> set (take i a)) [0..<length a])
   \<and> distinct (fst (removeDuplicates a))
   \<and> set (fst (removeDuplicates a)) = set a
   \<and> count_list (fst (removeDuplicates a)) x = (if x \<in> set a then 1 else 0)
   \<and> count_list (snd (removeDuplicates a)) x = count_list a x - 1
   \<and> removeDuplicates [''a'', ''a'', ''b'', ''a''] = ([''a'', ''b''], [''a'', ''a''])"
proof -
  have idx: "removeDuplicates a =
      (map (\<lambda>i. a ! i) (filter (\<lambda>i. a ! i \<notin> set (take i a)) [0..<length a]),
       map (\<lambda>i. a ! i) (filter (\<lambda>i. a ! i \<in> set (take i a)) [0..<length a]))"
    using removeDuplicates_loop_index [of a "{}" "[]" "[]"] by (simp add: removeDuplicates_def)
  have c1: "count_list (fst (removeDuplicates a)) x = (if x \<in> set a then 1 else 0)"
    by (simp add: removeDuplicates_def removeDuplicates_loop_count_fst)
  have c2: "count_list (snd (removeDuplicates a)) x = count_list a x - 1"
    by (simp add: removeDuplicates_def removeDuplicates_loop_count_snd)
  have ex: "removeDuplicates [''a'', ''a'', ''b'', ''a''] = ([''a'', ''b''], [''a'', ''a''])"
    by (simp add: removeDuplicates_def)
  from idx have i1: "fst (removeDuplicates a)
      = map (\<lambda>i. a ! i) (filter (\<lambda>i. a ! i \<notin> set (take i a)) [0..<length a])"
    by simp
  from idx have i2: "snd (removeDuplicates a)
      = map (\<lambda>i. a ! i) (filter (\<lambda>i. a ! i \<in> set (take i a)) [0..<length a])"
    by simp
  show ?thesis
    using i1 i2 c1 c2 ex distinct_fst_removeDuplicates [of a] set_fst_removeDuplicates [of a]
    by blast
qed

theorem removeDuplicates_first_and_repeat_occurrences_witness:
  "fst (removeDuplicates [''x'', ''y'', ''x'', ''x'']) = [''x'', ''y'']
   \<and> snd (removeDuplicates [''x'', ''y'', ''x'', ''x'']) = [''x'', ''x'']
   \<and> count_list (snd (removeDuplicates [''x'', ''y'', ''x'', ''x''])) ''x'' = 2"
  using removeDuplicates_first_and_repeat_occurrences [of "[''x'', ''y'', ''x'', ''x'']" "''x''"]
  by (simp add: upt_rec [of 0] upt_rec [of 1] upt_rec [of 2] upt_rec [of 3])

section \<open>Properties of insert\<close>

lemma insert_ev_unknown:
  "\<not> Ordered cfg \<or> Extensions e ''partitionkey'' = None \<Longrightarrow>
     insert_ev e store cfg
       = Inr (store(unknownPartitionKey \<mapsto> slice_elems (store unknownPartitionKey) @ [ID e]))"
  by (auto simp: insert_ev_def slice_elems_def Let_def split: option.splits)

lemma insert_ev_string:
  "Ordered cfg \<Longrightarrow> Extensions e ''partitionkey'' = Some (VString p) \<Longrightarrow>
     insert_ev e store cfg = Inr (store(p \<mapsto> slice_elems (store p) @ [ID e]))"
  by (auto simp: insert_ev_def slice_elems_def Let_def split: option.splits)

lemma insert_ev_panic:
  "Ordered cfg \<Longrightarrow> Extensions e ''partitionkey'' = Some v \<Longrightarrow> \<forall>str. v \<noteq> VString str \<Longrightarrow>
     insert_ev e store cfg = Inl TypeAssertionPanic"
  by (cases v) (auto simp: insert_ev_def)

text \<open>
  C5. For an event read from the sent or from the received channel, the key under which its
  ID is appended is the sentinel \<^verbatim>\<open>"unknown"\<close> whenever the manager is not ordered (whatever
  the event's extensions are) and whenever it is ordered and the event has no extension
  \<^verbatim>\<open>partitionkey\<close>; when the manager is ordered and the extension is a string, the key is that
  string; when the manager is ordered and the extension is present and not a string, the
  insertion panics and nothing is recorded.
\<close>

theorem insert_partition_key:
  "(\<not> Ordered (config s) \<or> Extensions e ''partitionkey'' = None \<longrightarrow>
      ReadSent_step e s
        = Inr (s\<lparr>sent := (sent s)(''unknown'' \<mapsto> slice_elems (sent s ''unknown'') @ [ID e])\<rparr>)
    \<and> ReadReceived_step e s
        = Inr (s\<lparr>received :=
                   (received s)(''unknown'' \<mapsto> slice_elems (received s ''unknown'') @ [ID e])\<rparr>))
   \<and> (Ordered (config s) \<and> Extensions e ''partitionkey'' = Some (VString p) \<longrightarrow>
      ReadSent_step e s = Inr (s\<lparr>sent := (sent s)(p \<mapsto> slice_elems (sent s p) @ [ID e])\<rparr>)
    \<and> ReadReceived_step e s
        = Inr (s\<lparr>received := (received s)(p \<mapsto> slice_elems (received s p) @ [ID e])\<rparr>))
   \<and> (Ordered (config s) \<and> Extensions e ''partitionkey'' = Some v \<and> (\<forall>str. v \<noteq> VString str) \<longrightarrow>
      ReadSent_step e s = Inl TypeAssertionPanic
    \<and> ReadReceived_step e s = Inl TypeAssertionPanic)"
  using insert_ev_unknown [of "config s" e] insert_ev_string [of "config s" e p]
    insert_ev_panic [of "config s" e v]
  by (simp add: ReadSent_step_def ReadReceived_step_def unknownPartitionKey_def)

theorem insert_partition_key_witness:
  "(case ReadSent_step \<lparr>ID = ''e1'', Extensions = [''partitionkey'' \<mapsto> VString ''p1'']\<rparr>
           (NewStateManager () \<lparr>Ordered = False, OrderedConfig = ()\<rparr>) of
      Inl err \<Rightarrow> None | Inr s' \<Rightarrow> Some (sent s' ''unknown'', sent s' ''p1''))
     = Some (Some [''e1''], None)
   \<and> (case ReadReceived_step \<lparr>ID = ''e1'', Extensions = [''partitionkey'' \<mapsto> VString ''p1'']\<rparr>
           (NewStateManager () \<lparr>Ordered = True, OrderedConfig = ()\<rparr>) of
      Inl err \<Rightarrow> None | Inr s' \<Rightarrow> Some (received s' ''unknown'', received s' ''p1''))
     = Some (None, Some [''e1''])
   \<and> ReadSent_step \<lparr>ID = ''e1'', Extensions = [''partitionkey'' \<mapsto> VInteger 7]\<rparr>
           (NewStateManager () \<lparr>Ordered = True, OrderedConfig = ()\<rparr>)
     = Inl TypeAssertionPanic"
  using
    insert_partition_key [of "NewStateManager () \<lparr>Ordered = False, OrderedConfig = ()\<rparr>"
      "\<lparr>ID = ''e1'', Extensions = [''partitionkey'' \<mapsto> VString ''p1'']\<rparr>" "''p1''" "VString ''p1''"]
    insert_partition_key [of "NewStateManager () \<lparr>Ordered = True, OrderedConfig = ()\<rparr>"
      "\<lparr>ID = ''e1'', Extensions = [''partitionkey'' \<mapsto> VString ''p1'']\<rparr>" "''p1''" "VString ''p1''"]
    insert_partition_key [of "NewStateManager () \<lparr>Ordered = True, OrderedConfig = ()\<rparr>"
      "\<lparr>ID = ''e1'', Extensions = [''partitionkey'' \<mapsto> VInteger 7]\<rparr>" "''p1''" "VInteger 7"]
  by (simp add: NewStateManager_def slice_elems_def)

section \<open>The loop of GenerateReport\<close>

lemma GenerateReport_body_None:
  "sent s k = None \<Longrightarrow> GenerateReport_body k (r, s) = (r, s)"
  by (simp add: GenerateReport_body_def)

lemma GenerateReport_body_Some:
  assumes "sent s k = Some v"
  shows "GenerateReport_body k (r, s) =
    (r\<lparr>LostEventsByPartitionKey := (LostEventsByPartitionKey r)(k \<mapsto>
          sorted_list_of_set
            (set v - set (slice_elems (map_option (\<lambda>a. fst (removeDuplicates a)) (received s k))))),
       LostCount := LostCount r + length (sorted_list_of_set
            (set v - set (slice_elems (map_option (\<lambda>a. fst (removeDuplicates a)) (received s k))))),
       DuplicateEventsByPartitionKey := (DuplicateEventsByPartitionKey r)(k \<mapsto>
          (if Ordered (config s) then (\<lambda>x. x) else sort_Strings)
            (slice_elems (map_option (\<lambda>a. snd (removeDuplicates a)) (received s k)))),
       DuplicateCount := DuplicateCount r
          + length (slice_elems (map_option (\<lambda>a. snd (removeDuplicates a)) (received s k))),
       ReceivedEventsByPartitionKey := (ReceivedEventsByPartitionKey r)(k \<mapsto>
          (if Ordered (config s) then v else sort_Strings v)),
       ReceivedCount_field := ReceivedCount_field r + length v\<rparr>,
     if Ordered (config s) then s else s\<lparr>sent := (sent s)(k \<mapsto> sort_Strings v)\<rparr>)"
  using assms
  by (cases "received s k")
     (simp_all add: GenerateReport_body_def Let_def sets_List_def sets_Difference_def
        sets_NewString_def slice_elems_def sort_Strings_def split: prod.splits)


lemma sort_Strings_idem [simp]: "sort_Strings (sort_Strings v) = sort_Strings v"
  by (simp add: sort_Strings_def sorted_sort_id)

lemma set_sort_Strings [simp]: "set (sort_Strings v) = set v"
  by (simp add: sort_Strings_def)

lemma length_sort_Strings [simp]: "length (sort_Strings v) = length v"
  by (simp add: sort_Strings_def)

lemma GenerateReport_fold_state:
  "snd (fold GenerateReport_body ks (r, s)) =
     (if Ordered (config s) then s
      else s\<lparr>sent := (\<lambda>k. if k \<in> set ks then map_option sort_Strings (sent s k) else sent s k)\<rparr>)"
proof (induction ks arbitrary: r s)
  case Nil
  then show ?case by simp
next
  case (Cons k ks)
  show ?case
  proof (cases "sent s k")
    case None
    then show ?thesis
      by (auto simp: GenerateReport_body_None Cons.IH intro!: arg_cong [where f = "\<lambda>f. s\<lparr>sent := f\<rparr>"])
  next
    case (Some v)
    then show ?thesis
      by (auto simp: GenerateReport_body_Some Cons.IH fun_eq_iff option.map_comp comp_def
            intro!: arg_cong [where f = "\<lambda>f. s\<lparr>sent := f\<rparr>"])
  qed
qed



lemma slice_elems_simps [simp]:
  "slice_elems None = []" "slice_elems (Some xs) = xs"
  by (simp_all add: slice_elems_def)

lemma GenerateReport_fold_Lost:
  "LostEventsByPartitionKey (fst (fold GenerateReport_body ks (r, s))) k =
     (if k \<in> set ks \<and> sent s k \<noteq> None
      then Some (sorted_list_of_set
             (set (slice_elems (sent s k))
                - set (slice_elems (map_option (\<lambda>a. fst (removeDuplicates a)) (received s k)))))
      else LostEventsByPartitionKey r k)"
proof (induction ks arbitrary: r s)
  case Nil
  then show ?case by simp
next
  case (Cons j ks)
  show ?case
  proof (cases "sent s j")
    case None
    then show ?thesis
      by (auto simp: GenerateReport_body_None Cons.IH)
  next
    case (Some v)
    have here: "set (slice_elems (sent s j)) = set v"
      using Some by (simp add: slice_elems_def)
    show ?thesis
      using Some here
      by (auto simp: GenerateReport_body_Some Cons.IH)
  qed
qed

lemma GenerateReport_fold_LostCount:
  "LostCount (fst (fold GenerateReport_body ks (r, s))) =
     LostCount r + sum_list (map (\<lambda>k. length (sorted_list_of_set
             (set (slice_elems (sent s k))
                - set (slice_elems (map_option (\<lambda>a. fst (removeDuplicates a)) (received s k))))))
          ks)"
proof (induction ks arbitrary: r s)
  case Nil
  then show ?case by simp
next
  case (Cons j ks)
  show ?case
  proof (cases "sent s j")
    case None
    then show ?thesis
      by (simp add: GenerateReport_body_None Cons.IH)
  next
    case (Some v)
    have there: "\<And>k. set (slice_elems (if k = j then Some (sort_Strings v) else sent s k))
                    = set (slice_elems (sent s k))"
      using Some by simp
    show ?thesis
      using Some by (simp add: GenerateReport_body_Some Cons.IH there)
  qed
qed

lemma GenerateReport_fold_Duplicate:
  "DuplicateEventsByPartitionKey (fst (fold GenerateReport_body ks (r, s))) k =
     (if k \<in> set ks \<and> sent s k \<noteq> None
      then Some ((if Ordered (config s) then (\<lambda>x. x) else sort_Strings)
                   (slice_elems (map_option (\<lambda>a. snd (removeDuplicates a)) (received s k))))
      else DuplicateEventsByPartitionKey r k)"
proof (induction ks arbitrary: r s)
  case Nil
  then show ?case by simp
next
  case (Cons j ks)
  show ?case
  proof (cases "sent s j")
    case None
    then show ?thesis
      by (auto simp: GenerateReport_body_None Cons.IH)
  next
    case (Some v)
    then show ?thesis
      by (auto simp: GenerateReport_body_Some Cons.IH)
  qed
qed

lemma GenerateReport_fold_DuplicateCount:
  "DuplicateCount (fst (fold GenerateReport_body ks (r, s))) =
     DuplicateCount r + sum_list (map (\<lambda>k. length
             (slice_elems (map_option (\<lambda>a. snd (removeDuplicates a)) (received s k))))
          (filter (\<lambda>k. sent s k \<noteq> None) ks))"
proof (induction ks arbitrary: r s)
  case Nil
  then show ?case by simp
next
  case (Cons j ks)
  show ?case
  proof (cases "sent s j")
    case None
    then show ?thesis
      by (simp add: GenerateReport_body_None Cons.IH)
  next
    case (Some v)
    have there: "\<And>k. (k \<noteq> j \<longrightarrow> (\<exists>y. sent s k = Some y)) = (\<exists>y. sent s k = Some y)"
      using Some by auto
    show ?thesis
      using Some by (simp add: GenerateReport_body_Some Cons.IH there)
  qed
qed

lemma GenerateReport_fold_Received:
  "ReceivedEventsByPartitionKey (fst (fold GenerateReport_body ks (r, s))) k =
     (if k \<in> set ks \<and> sent s k \<noteq> None
      then map_option (if Ordered (config s) then (\<lambda>x. x) else sort_Strings) (sent s k)
      else ReceivedEventsByPartitionKey r k)"
proof (induction ks arbitrary: r s)
  case Nil
  then show ?case by simp
next
  case (Cons j ks)
  show ?case
  proof (cases "sent s j")
    case None
    then show ?thesis
      by (auto simp: GenerateReport_body_None Cons.IH)
  next
    case (Some v)
    then show ?thesis
      by (auto simp: GenerateReport_body_Some Cons.IH)
  qed
qed

lemma GenerateReport_fold_ReceivedCount:
  "ReceivedCount_field (fst (fold GenerateReport_body ks (r, s))) =
     ReceivedCount_field r + sum_list (map (\<lambda>k. length (slice_elems (sent s k))) ks)"
proof (induction ks arbitrary: r s)
  case Nil
  then show ?case by simp
next
  case (Cons j ks)
  show ?case
  proof (cases "sent s j")
    case None
    then show ?thesis
      by (simp add: GenerateReport_body_None Cons.IH)
  next
    case (Some v)
    have there: "\<And>k. length (slice_elems (if k = j then Some (sort_Strings v) else sent s k))
                    = length (slice_elems (sent s k))"
      using Some by simp
    show ?thesis
      using Some by (simp add: GenerateReport_body_Some Cons.IH there)
  qed
qed

lemma GenerateReport_fold_Metrics:
  "Metrics (fst (fold GenerateReport_body ks (r, s))) = Metrics r
   \<and> Terminated_field (fst (fold GenerateReport_body ks (r, s))) = Terminated_field r"
proof (induction ks arbitrary: r s)
  case Nil
  then show ?case by simp
next
  case (Cons j ks)
  show ?case
  proof (cases "sent s j")
    case None
    then show ?thesis
      by (simp add: GenerateReport_body_None Cons.IH)
  next
    case (Some v)
    then show ?thesis
      by (simp add: GenerateReport_body_Some Cons.IH)
  qed
qed

section \<open>The loop of Diff\<close>

lemma Diff_body_None:
  "sent s k = None \<Longrightarrow> Diff_body d k (h, f, s) = (h, f, s)"
  by (simp add: Diff_body_def)

lemma Diff_body_Some:
  assumes "sent s k = Some v"
  shows "Diff_body d k (h, f, s) =
    (h \<or> d ((if Ordered (config s) then (\<lambda>x. x) else map_option sort_Strings)
               (map_option (\<lambda>a. fst (removeDuplicates a)) (received s k)))
            ((if Ordered (config s) then (\<lambda>x. x) else map_option sort_Strings) (sent s k)) \<noteq> [],
     f @ Sprintf_partitionkey k
           (d ((if Ordered (config s) then (\<lambda>x. x) else map_option sort_Strings)
                 (map_option (\<lambda>a. fst (removeDuplicates a)) (received s k)))
              ((if Ordered (config s) then (\<lambda>x. x) else map_option sort_Strings) (sent s k))),
     if Ordered (config s) then s else s\<lparr>sent := (sent s)(k \<mapsto> sort_Strings v)\<rparr>)"
  using assms
  by (cases "received s k") (auto simp: Diff_body_def Let_def)

lemma Diff_fold_state:
  "snd (snd (fold (Diff_body d) ks (h, f, s))) =
     (if Ordered (config s) then s
      else s\<lparr>sent := (\<lambda>k. if k \<in> set ks then map_option sort_Strings (sent s k) else sent s k)\<rparr>)"
proof (induction ks arbitrary: h f s)
  case Nil
  then show ?case by simp
next
  case (Cons k ks)
  show ?case
  proof (cases "sent s k")
    case None
    then show ?thesis
      by (auto simp: Diff_body_None Cons.IH intro!: arg_cong [where f = "\<lambda>f. s\<lparr>sent := f\<rparr>"])
  next
    case (Some v)
    then show ?thesis
      by (auto simp: Diff_body_Some Cons.IH fun_eq_iff option.map_comp comp_def
            intro!: arg_cong [where f = "\<lambda>f. s\<lparr>sent := f\<rparr>"])
  qed
qed

lemma Diff_fold_text:
  "fst (snd (fold (Diff_body d) ks (h, f, s))) =
      f @ concat (map (\<lambda>k. Sprintf_partitionkey k
           (d ((if Ordered (config s) then (\<lambda>x. x) else map_option sort_Strings)
                 (map_option (\<lambda>a. fst (removeDuplicates a)) (received s k)))
              ((if Ordered (config s) then (\<lambda>x. x) else map_option sort_Strings) (sent s k))))
           (filter (\<lambda>k. sent s k \<noteq> None) ks))"
proof (induction ks arbitrary: h f s)
  case Nil
  then show ?case by simp
next
  case (Cons j ks)
  show ?case
  proof (cases "sent s j")
    case None
    then show ?thesis
      by (simp add: Diff_body_None Cons.IH)
  next
    case (Some v)
    show ?thesis
    proof (cases "Ordered (config s)")
      case True
      with Some show ?thesis
        by (simp add: Diff_body_Some Cons.IH)
    next
      case False
      define s1 where "s1 = s\<lparr>sent := (sent s)(j \<mapsto> sort_Strings v)\<rparr>"
      have f1: "\<And>k. (\<exists>y. sent s1 k = Some y) = (\<exists>y. sent s k = Some y)"
        using Some by (simp add: s1_def)
      have f2: "\<And>k. map_option sort_Strings (sent s1 k) = map_option sort_Strings (sent s k)"
        using Some by (simp add: s1_def)
      have f3: "received s1 = received s" "config s1 = config s"
        by (simp_all add: s1_def)
      have body: "Diff_body d j (h, f, s) =
          (h \<or> d (map_option sort_Strings
                    (map_option (\<lambda>a. fst (removeDuplicates a)) (received s j)))
                 (map_option sort_Strings (sent s j)) \<noteq> [],
           f @ Sprintf_partitionkey j
                 (d (map_option sort_Strings
                      (map_option (\<lambda>a. fst (removeDuplicates a)) (received s j)))
                    (map_option sort_Strings (sent s j))),
           s1)"
        using Some False by (simp add: Diff_body_Some s1_def)
      show ?thesis
        using Some False by (simp add: body Cons.IH f1 f2 f3)
    qed
  qed
qed

lemma Diff_fold_hasDiff:
  "fst (fold (Diff_body d) ks (h, f, s)) =
     (h \<or> (\<exists>k \<in> set ks. sent s k \<noteq> None \<and>
              d ((if Ordered (config s) then (\<lambda>x. x) else map_option sort_Strings)
                   (map_option (\<lambda>a. fst (removeDuplicates a)) (received s k)))
                ((if Ordered (config s) then (\<lambda>x. x) else map_option sort_Strings) (sent s k))
              \<noteq> []))"
proof (induction ks arbitrary: h f s)
  case Nil
  then show ?case by simp
next
  case (Cons j ks)
  show ?case
  proof (cases "sent s j")
    case None
    then show ?thesis
      by (simp add: Diff_body_None Cons.IH)
  next
    case (Some v)
    show ?thesis
    proof (cases "Ordered (config s)")
      case True
      with Some show ?thesis
        by (simp add: Diff_body_Some Cons.IH)
    next
      case False
      define s1 where "s1 = s\<lparr>sent := (sent s)(j \<mapsto> sort_Strings v)\<rparr>"
      have f1: "\<And>k. (\<exists>y. sent s1 k = Some y) = (\<exists>y. sent s k = Some y)"
        using Some by (simp add: s1_def)
      have f2: "\<And>k. map_option sort_Strings (sent s1 k) = map_option sort_Strings (sent s k)"
        using Some by (simp add: s1_def)
      have f3: "received s1 = received s" "config s1 = config s"
        by (simp_all add: s1_def)
      have body: "Diff_body d j (h, f, s) =
          (h \<or> d (map_option sort_Strings
                    (map_option (\<lambda>a. fst (removeDuplicates a)) (received s j)))
                 (map_option sort_Strings (sent s j)) \<noteq> [],
           f @ Sprintf_partitionkey j
                 (d (map_option sort_Strings
                      (map_option (\<lambda>a. fst (removeDuplicates a)) (received s j)))
                    (map_option sort_Strings (sent s j))),
           s1)"
        using Some False by (simp add: Diff_body_Some s1_def)
      show ?thesis
        using Some False by (simp add: body Cons.IH f1 f2 f3)
    qed
  qed
qed

section \<open>The report\<close>

lemma range_order_sum_list:
  "range_order m ks \<Longrightarrow> sum_list (map f ks) = sum f (dom m)"
  by (simp add: range_order_def sum_list_distinct_conv_sum_set)

lemma example_lost:
  "sorted_list_of_set (set [''e1'', ''e2'', ''e3''] - set (fst (removeDuplicates [''e1'', ''e3'']))) = [''e2'']"
  by code_simp

text \<open>
  C4. For every ledger state and every key of the sent ledger, the report's lost events for
  the key are a sequence that holds exactly the IDs sent under the key that are not among the
  deduplicated (first-occurrence) received IDs of the key, each once; \<^verbatim>\<open>LostCount\<close> is the sum
  over the keys of the sent ledger of the sizes of these sets. With sent
  \<^verbatim>\<open>{p1: ["e1","e2","e3"]}\<close> and received \<^verbatim>\<open>{p1: ["e1","e3"]}\<close> the lost events of \<^verbatim>\<open>p1\<close> are
  \<^verbatim>\<open>["e2"]\<close> and \<^verbatim>\<open>LostCount\<close> is 1, in either mode.
\<close>

theorem GenerateReport_lost_events:
  assumes "range_order (sent s) ks"
  shows "(\<forall>k v. sent s k = Some v \<longrightarrow>
            (\<exists>l. LostEventsByPartitionKey (fst (GenerateReport ks s)) k = Some l
                 \<and> set l = set v - set (slice_elems
                       (map_option (\<lambda>a. fst (removeDuplicates a)) (received s k)))
                 \<and> distinct l))
         \<and> LostCount (fst (GenerateReport ks s))
             = (\<Sum>k \<in> dom (sent s). card (set (slice_elems (sent s k)) - set (slice_elems
                       (map_option (\<lambda>a. fst (removeDuplicates a)) (received s k)))))
         \<and> LostEventsByPartitionKey (fst (GenerateReport [''p1'']
               \<lparr>received = [''p1'' \<mapsto> [''e1'', ''e3'']], sent = [''p1'' \<mapsto> [''e1'', ''e2'', ''e3'']],
                config = cfg, terminated = t, metrics = m\<rparr>)) ''p1'' = Some [''e2'']
         \<and> LostCount (fst (GenerateReport [''p1'']
               \<lparr>received = [''p1'' \<mapsto> [''e1'', ''e3'']], sent = [''p1'' \<mapsto> [''e1'', ''e2'', ''e3'']],
                config = cfg, terminated = t, metrics = m\<rparr>)) = 1"
proof -
  have fin: "\<And>A B :: string set. finite A \<Longrightarrow> finite (A - B)" by simp
  have a: "\<forall>k v. sent s k = Some v \<longrightarrow>
            (\<exists>l. LostEventsByPartitionKey (fst (GenerateReport ks s)) k = Some l
                 \<and> set l = set v - set (slice_elems
                       (map_option (\<lambda>a. fst (removeDuplicates a)) (received s k)))
                 \<and> distinct l)"
  proof (intro allI impI)
    fix k v assume kv: "sent s k = Some v"
    then have "k \<in> set ks" using assms by (auto simp: range_order_def)
    with kv show "\<exists>l. LostEventsByPartitionKey (fst (GenerateReport ks s)) k = Some l
                 \<and> set l = set v - set (slice_elems
                       (map_option (\<lambda>a. fst (removeDuplicates a)) (received s k)))
                 \<and> distinct l"
      by (simp add: GenerateReport_def GenerateReport_fold_Lost)
  qed
  have b: "LostCount (fst (GenerateReport ks s))
             = (\<Sum>k \<in> dom (sent s). card (set (slice_elems (sent s k)) - set (slice_elems
                       (map_option (\<lambda>a. fst (removeDuplicates a)) (received s k)))))"
    by (simp add: GenerateReport_def GenerateReport_fold_LostCount
          range_order_sum_list [OF assms])
  have c: "LostEventsByPartitionKey (fst (GenerateReport [''p1'']
               \<lparr>received = [''p1'' \<mapsto> [''e1'', ''e3'']], sent = [''p1'' \<mapsto> [''e1'', ''e2'', ''e3'']],
                config = cfg, terminated = t, metrics = m\<rparr>)) ''p1'' = Some [''e2'']"
    unfolding GenerateReport_def
    using example_lost by (subst GenerateReport_fold_Lost) simp
  have d: "LostCount (fst (GenerateReport [''p1'']
               \<lparr>received = [''p1'' \<mapsto> [''e1'', ''e3'']], sent = [''p1'' \<mapsto> [''e1'', ''e2'', ''e3'']],
                config = cfg, terminated = t, metrics = m\<rparr>)) = 1"
    unfolding GenerateReport_def
    using arg_cong [OF example_lost, of length] by (subst GenerateReport_fold_LostCount) simp
  from a b c d show ?thesis by blast
qed


theorem GenerateReport_lost_events_witness:
  "range_order (sent \<lparr>received = [''p1'' \<mapsto> [''b'', ''b'']], sent = [''p1'' \<mapsto> [''c'', ''b'', ''a'']],
                config = \<lparr>Ordered = True, OrderedConfig = ()\<rparr>, terminated = False, metrics = ()\<rparr>)
     [''p1'']
   \<and> (\<exists>l. LostEventsByPartitionKey (fst (GenerateReport [''p1'']
        \<lparr>received = [''p1'' \<mapsto> [''b'', ''b'']], sent = [''p1'' \<mapsto> [''c'', ''b'', ''a'']],
         config = \<lparr>Ordered = True, OrderedConfig = ()\<rparr>, terminated = False, metrics = ()\<rparr>))
          ''p1'' = Some l
        \<and> set l = {''c'', ''a''} \<and> distinct l)
   \<and> LostCount (fst (GenerateReport [''p1'']
        \<lparr>received = [''p1'' \<mapsto> [''b'', ''b'']], sent = [''p1'' \<mapsto> [''c'', ''b'', ''a'']],
         config = \<lparr>Ordered = True, OrderedConfig = ()\<rparr>, terminated = False, metrics = ()\<rparr>)) = 2"
proof -
  have ro: "range_order (sent \<lparr>received = [''p1'' \<mapsto> [''b'', ''b'']],
                sent = [''p1'' \<mapsto> [''c'', ''b'', ''a'']],
                config = \<lparr>Ordered = True, OrderedConfig = ()\<rparr>, terminated = False, metrics = ()\<rparr>)
     [''p1'']"
    by (simp add: range_order_def)
  have rd: "set (fst (removeDuplicates [''b'', ''b''])) = {''b''}"
    by (simp add: removeDuplicates_def)
  have df: "{''c'', ''b'', ''a''} - {''b''} = {''c'', ''a''}"
    by auto
  show ?thesis
    using ro
      GenerateReport_lost_events [OF ro, THEN conjunct1, rule_format,
        of "''p1''" "[''c'', ''b'', ''a'']"]
      GenerateReport_lost_events [OF ro, THEN conjunct2, THEN conjunct1]
    by (simp add: rd df)
qed

text \<open>
  C10. For every ledger state and every key of the sent ledger, the lost events that
  \<^verbatim>\<open>GenerateReport\<close> stores for the key are sorted in increasing lexicographic order and
  repeat no ID, whether the manager is ordered or not. In ordered mode the list does not
  follow the order of sending: sent \<^verbatim>\<open>["e2","e1"]\<close> with nothing received gives the lost
  events \<^verbatim>\<open>["e1","e2"]\<close>.
\<close>

theorem GenerateReport_lost_sorted_distinct:
  assumes "range_order (sent s) ks"
  shows "(\<forall>k \<in> dom (sent s).
            \<exists>l. LostEventsByPartitionKey (fst (GenerateReport ks s)) k = Some l
                 \<and> sorted l \<and> distinct l)
         \<and> LostEventsByPartitionKey (fst (GenerateReport [''p1'']
               \<lparr>received = Map.empty, sent = [''p1'' \<mapsto> [''e2'', ''e1'']],
                config = \<lparr>Ordered = True, OrderedConfig = oc\<rparr>, terminated = t, metrics = m\<rparr>))
             ''p1'' = Some [''e1'', ''e2'']"
proof -
  have a: "\<forall>k \<in> dom (sent s).
            \<exists>l. LostEventsByPartitionKey (fst (GenerateReport ks s)) k = Some l
                 \<and> sorted l \<and> distinct l"
  proof
    fix k assume "k \<in> dom (sent s)"
    then have "k \<in> set ks" "sent s k \<noteq> None"
      using assms by (auto simp: range_order_def)
    then show "\<exists>l. LostEventsByPartitionKey (fst (GenerateReport ks s)) k = Some l
                 \<and> sorted l \<and> distinct l"
      by (simp add: GenerateReport_def GenerateReport_fold_Lost)
  qed
  have ex: "sorted_list_of_set (set [''e2'', ''e1'']) = [''e1'', ''e2'']"
    by code_simp
  have b: "LostEventsByPartitionKey (fst (GenerateReport [''p1'']
               \<lparr>received = Map.empty, sent = [''p1'' \<mapsto> [''e2'', ''e1'']],
                config = \<lparr>Ordered = True, OrderedConfig = oc\<rparr>, terminated = t, metrics = m\<rparr>))
             ''p1'' = Some [''e1'', ''e2'']"
    unfolding GenerateReport_def
    using ex by (subst GenerateReport_fold_Lost) simp
  from a b show ?thesis by blast
qed

theorem GenerateReport_lost_sorted_distinct_witness:
  "range_order (sent \<lparr>received = [''p1'' \<mapsto> [''b'']], sent = [''p1'' \<mapsto> [''c'', ''b'', ''a'']],
                config = \<lparr>Ordered = True, OrderedConfig = ()\<rparr>, terminated = False, metrics = ()\<rparr>)
     [''p1'']
   \<and> (\<exists>l. LostEventsByPartitionKey (fst (GenerateReport [''p1'']
        \<lparr>received = [''p1'' \<mapsto> [''b'']], sent = [''p1'' \<mapsto> [''c'', ''b'', ''a'']],
         config = \<lparr>Ordered = True, OrderedConfig = ()\<rparr>, terminated = False, metrics = ()\<rparr>)) ''p1''
          = Some l \<and> sorted l \<and> distinct l)"
proof -
  have ro: "range_order (sent \<lparr>received = [''p1'' \<mapsto> [''b'']],
                sent = [''p1'' \<mapsto> [''c'', ''b'', ''a'']],
                config = \<lparr>Ordered = True, OrderedConfig = ()\<rparr>, terminated = False, metrics = ()\<rparr>)
     [''p1'']"
    by (simp add: range_order_def)
  show ?thesis
    using ro GenerateReport_lost_sorted_distinct [OF ro, THEN conjunct1]
    by simp
qed

text \<open>
  What the received fields of the report hold, for every order of the keys of the sent
  ledger: the slice of the sent ledger (sorted when the manager is not ordered) and the sum
  of the lengths of the sent slices.
\<close>

lemma GenerateReport_received_fields:
  assumes "range_order (sent s) ks"
  shows "ReceivedEventsByPartitionKey (fst (GenerateReport ks s)) k
           = map_option (if Ordered (config s) then (\<lambda>x. x) else sort_Strings) (sent s k)"
    and "ReceivedCount_field (fst (GenerateReport ks s))
           = (\<Sum>k \<in> dom (sent s). length (slice_elems (sent s k)))"
proof -
  have "k \<in> set ks \<or> sent s k = None"
    using assms by (auto simp: range_order_def)
  then show "ReceivedEventsByPartitionKey (fst (GenerateReport ks s)) k
           = map_option (if Ordered (config s) then (\<lambda>x. x) else sort_Strings) (sent s k)"
    by (auto simp: GenerateReport_def GenerateReport_fold_Received)
  show "ReceivedCount_field (fst (GenerateReport ks s))
           = (\<Sum>k \<in> dom (sent s). length (slice_elems (sent s k)))"
    by (simp add: GenerateReport_def GenerateReport_fold_ReceivedCount
          range_order_sum_list [OF assms])
qed

text \<open>
  C1. The claim is that \<^verbatim>\<open>ReceivedEventsByPartitionKey\<close> holds the raw received sequence of
  each key of the sent ledger and that \<^verbatim>\<open>ReceivedCount\<close> is the sum of the raw received
  lengths. The code stores the sent sequence and adds its length. An ordered manager that
  reads the event \<^verbatim>\<open>e1\<close> with partition key \<^verbatim>\<open>p1\<close> once from the sent channel and twice from
  the received channel has sent \<^verbatim>\<open>{p1: ["e1"]}\<close> and received \<^verbatim>\<open>{p1: ["e1","e1"]}\<close>; its
  report has \<^verbatim>\<open>ReceivedEventsByPartitionKey["p1"] = ["e1"]\<close> and \<^verbatim>\<open>ReceivedCount = 1\<close>, not
  \<^verbatim>\<open>["e1","e1"]\<close> and 2, while \<^verbatim>\<open>DuplicateCount\<close> is 1 and nothing is lost.
\<close>

theorem GenerateReport_received_fields_hold_sent:
  "\<exists>s1 s2.
     ReadSent [\<lparr>ID = ''e1'', Extensions = [''partitionkey'' \<mapsto> VString ''p1'']\<rparr>]
        (NewStateManager z \<lparr>Ordered = True, OrderedConfig = oc\<rparr>) = Inr s1
     \<and> ReadReceived [\<lparr>ID = ''e1'', Extensions = [''partitionkey'' \<mapsto> VString ''p1'']\<rparr>,
                     \<lparr>ID = ''e1'', Extensions = [''partitionkey'' \<mapsto> VString ''p1'']\<rparr>] s1 = Inr s2
     \<and> sent s2 = [''p1'' \<mapsto> [''e1'']]
     \<and> received s2 = [''p1'' \<mapsto> [''e1'', ''e1'']]
     \<and> ReceivedEventsByPartitionKey (fst (GenerateReport [''p1''] s2)) ''p1'' = Some [''e1'']
     \<and> ReceivedCount_field (fst (GenerateReport [''p1''] s2)) = 1
     \<and> DuplicateCount (fst (GenerateReport [''p1''] s2)) = 1
     \<and> LostEventsByPartitionKey (fst (GenerateReport [''p1''] s2)) ''p1'' = Some []
     \<and> LostCount (fst (GenerateReport [''p1''] s2)) = 0"
  by (simp add: NewStateManager_def ReadSent_step_def ReadReceived_step_def insert_ev_def
        GenerateReport_def GenerateReport_body_def removeDuplicates_def sets_List_def
        sets_Difference_def sets_NewString_def Let_def)

text \<open>
  C7. The claim is that \<^verbatim>\<open>GenerateReport\<close> leaves both ledgers as they were, in either mode.
  A manager that is not ordered and has read the events \<^verbatim>\<open>b\<close> and \<^verbatim>\<open>a\<close>, in this order, from
  the sent channel has the sent ledger \<^verbatim>\<open>{unknown: ["b","a"]}\<close>; after \<^verbatim>\<open>GenerateReport\<close> the
  sent ledger is \<^verbatim>\<open>{unknown: ["a","b"]}\<close>: \<^verbatim>\<open>sort.Strings(sent)\<close> has sorted the array that the
  ledger entry shares with the local slice.
\<close>

theorem GenerateReport_sorts_sent_ledger:
  "\<exists>s1.
     ReadSent [\<lparr>ID = ''b'', Extensions = Map.empty\<rparr>, \<lparr>ID = ''a'', Extensions = Map.empty\<rparr>]
        (NewStateManager z \<lparr>Ordered = False, OrderedConfig = oc\<rparr>) = Inr s1
     \<and> sent s1 = [''unknown'' \<mapsto> [''b'', ''a'']]
     \<and> range_order (sent s1) [''unknown'']
     \<and> sent (snd (GenerateReport [''unknown''] s1)) = [''unknown'' \<mapsto> [''a'', ''b'']]
     \<and> sent (snd (GenerateReport [''unknown''] s1)) \<noteq> sent s1"
  apply (simp add: NewStateManager_def ReadSent_step_def insert_ev_def unknownPartitionKey_def
        GenerateReport_def GenerateReport_body_def removeDuplicates_def sets_List_def
        sets_Difference_def sets_NewString_def Let_def range_order_def sort_Strings_def)
  apply (simp add: fun_eq_iff)
  done

section \<open>The diff\<close>

lemma Diff_text:
  "fst (Diff d ks s) =
     (if \<forall>k \<in> set ks. sent s k \<noteq> None \<longrightarrow>
            d ((if Ordered (config s) then (\<lambda>x. x) else map_option sort_Strings)
                 (map_option (\<lambda>a. fst (removeDuplicates a)) (received s k)))
              ((if Ordered (config s) then (\<lambda>x. x) else map_option sort_Strings) (sent s k)) = []
      then []
      else ''Diff by partition key'' @ [CHR 0x0A] @
           concat (map (\<lambda>k. Sprintf_partitionkey k
             (d ((if Ordered (config s) then (\<lambda>x. x) else map_option sort_Strings)
                   (map_option (\<lambda>a. fst (removeDuplicates a)) (received s k)))
                ((if Ordered (config s) then (\<lambda>x. x) else map_option sort_Strings) (sent s k))))
             (filter (\<lambda>k. sent s k \<noteq> None) ks)))"
  by (auto simp: Diff_def split_beta Diff_fold_hasDiff Diff_fold_text)

lemma Diff_state:
  "snd (Diff d ks s) =
     (if Ordered (config s) then s
      else s\<lparr>sent := (\<lambda>k. if k \<in> set ks then map_option sort_Strings (sent s k) else sent s k)\<rparr>)"
  by (simp add: Diff_def split_beta Diff_fold_state)


lemma range_order_filter:
  "range_order m ks \<Longrightarrow> filter (\<lambda>k. \<exists>y. m k = Some y) ks = ks"
  by (auto simp: range_order_def filter_id_conv)

lemma Diff_empty_iff:
  assumes "cmp_Diff_contract d" "range_order (sent s) ks"
  shows "(fst (Diff d ks s) = []) =
     (\<forall>k \<in> dom (sent s).
        (if Ordered (config s) then (\<lambda>x. x) else map_option sort_Strings)
           (map_option (\<lambda>a. fst (removeDuplicates a)) (received s k))
        = (if Ordered (config s) then (\<lambda>x. x) else map_option sort_Strings) (sent s k))"
proof -
  have c: "\<And>x y. (d x y = []) = (x = y)"
    using assms(1) by (simp add: cmp_Diff_contract_def)
  have ks: "set ks = dom (sent s)"
    using assms(2) by (simp add: range_order_def)
  show ?thesis
    unfolding Diff_text c ks by (auto simp: dom_def)
qed

text \<open>
  C3. Let \<^verbatim>\<open>cmp.Diff\<close> return the empty string exactly on equal arguments. For every ledger
  state, \<^verbatim>\<open>Diff\<close> of an ordered manager returns the empty string exactly when, for every key of
  the sent ledger, the deduplicated received sequence equals the sent sequence as it is; of a
  manager that is not ordered, exactly when the two are equal after sorting both. A result
  that is not empty is the header line followed, for every key, by the key's line and the
  output of \<^verbatim>\<open>cmp.Diff\<close> on the two sequences (sorted if not ordered). For a single partition
  with sent \<^verbatim>\<open>["e1","e2"]\<close> and received \<^verbatim>\<open>["e2","e1"]\<close> the result is not empty in ordered mode
  and empty otherwise.
\<close>

theorem Diff_compares_sorted_or_as_is:
  assumes "cmp_Diff_contract d"
  shows "(range_order (sent s) ks \<longrightarrow>
           (Ordered (config s) \<longrightarrow>
              (fst (Diff d ks s) = []) =
                (\<forall>k \<in> dom (sent s).
                   map_option (\<lambda>a. fst (removeDuplicates a)) (received s k) = sent s k))
         \<and> (\<not> Ordered (config s) \<longrightarrow>
              (fst (Diff d ks s) = []) =
                (\<forall>k \<in> dom (sent s).
                   map_option (\<lambda>a. sort_Strings (fst (removeDuplicates a))) (received s k)
                     = map_option sort_Strings (sent s k)))
         \<and> (fst (Diff d ks s) \<noteq> [] \<longrightarrow>
              fst (Diff d ks s) =
                ''Diff by partition key'' @ [CHR 0x0A] @
                concat (map (\<lambda>k. Sprintf_partitionkey k
                  (d ((if Ordered (config s) then (\<lambda>x. x) else map_option sort_Strings)
                        (map_option (\<lambda>a. fst (removeDuplicates a)) (received s k)))
                     ((if Ordered (config s) then (\<lambda>x. x) else map_option sort_Strings)
                        (sent s k)))) ks)))
       \<and> (Ordered cfg \<longrightarrow>
            fst (Diff d [k] \<lparr>received = [k \<mapsto> [''e2'', ''e1'']], sent = [k \<mapsto> [''e1'', ''e2'']],
                             config = cfg, terminated = t, metrics = m\<rparr>) \<noteq> [])
       \<and> (\<not> Ordered cfg \<longrightarrow>
            fst (Diff d [k] \<lparr>received = [k \<mapsto> [''e2'', ''e1'']], sent = [k \<mapsto> [''e1'', ''e2'']],
                             config = cfg, terminated = t, metrics = m\<rparr>) = [])"
proof -
  have c: "\<And>x y. (d x y = []) = (x = y)"
    using assms by (simp add: cmp_Diff_contract_def)
  have rd: "fst (removeDuplicates [''e2'', ''e1'']) = [''e2'', ''e1'']"
    by (simp add: removeDuplicates_def)
  have srt: "sort_Strings [''e2'', ''e1''] = [''e1'', ''e2'']"
            "sort_Strings [''e1'', ''e2''] = [''e1'', ''e2'']"
    by (simp_all add: sort_Strings_def)
  have general: "(Ordered (config s) \<longrightarrow>
              (fst (Diff d ks s) = []) =
                (\<forall>k \<in> dom (sent s).
                   map_option (\<lambda>a. fst (removeDuplicates a)) (received s k) = sent s k))
         \<and> (\<not> Ordered (config s) \<longrightarrow>
              (fst (Diff d ks s) = []) =
                (\<forall>k \<in> dom (sent s).
                   map_option (\<lambda>a. sort_Strings (fst (removeDuplicates a))) (received s k)
                     = map_option sort_Strings (sent s k)))
         \<and> (fst (Diff d ks s) \<noteq> [] \<longrightarrow>
              fst (Diff d ks s) =
                ''Diff by partition key'' @ [CHR 0x0A] @
                concat (map (\<lambda>k. Sprintf_partitionkey k
                  (d ((if Ordered (config s) then (\<lambda>x. x) else map_option sort_Strings)
                        (map_option (\<lambda>a. fst (removeDuplicates a)) (received s k)))
                     ((if Ordered (config s) then (\<lambda>x. x) else map_option sort_Strings)
                        (sent s k)))) ks))"
    if ro: "range_order (sent s) ks"
  proof -
    have body_text: "fst (Diff d ks s) \<noteq> [] \<longrightarrow>
              fst (Diff d ks s) =
                ''Diff by partition key'' @ [CHR 0x0A] @
                concat (map (\<lambda>k. Sprintf_partitionkey k
                  (d ((if Ordered (config s) then (\<lambda>x. x) else map_option sort_Strings)
                        (map_option (\<lambda>a. fst (removeDuplicates a)) (received s k)))
                     ((if Ordered (config s) then (\<lambda>x. x) else map_option sort_Strings)
                        (sent s k)))) ks)"
      by (subst (2) Diff_text) (simp add: range_order_filter [OF ro] Diff_text)
    show ?thesis
      using Diff_empty_iff [OF assms ro] body_text
      by (simp add: option.map_comp comp_def)
  qed
  have ex1: "fst (Diff d [k] \<lparr>received = [k \<mapsto> [''e2'', ''e1'']], sent = [k \<mapsto> [''e1'', ''e2'']],
                             config = cfg, terminated = t, metrics = m\<rparr>) \<noteq> []"
    if "Ordered cfg"
    using that by (simp add: Diff_text c rd)
  have ex2: "fst (Diff d [k] \<lparr>received = [k \<mapsto> [''e2'', ''e1'']], sent = [k \<mapsto> [''e1'', ''e2'']],
                             config = cfg, terminated = t, metrics = m\<rparr>) = []"
    if "\<not> Ordered cfg"
    using that by (simp add: Diff_text c rd srt)
  from general ex1 ex2 show ?thesis by blast
qed

theorem Diff_compares_sorted_or_as_is_witness:
  "cmp_Diff_contract (\<lambda>x y. if x = y then [] else ''differ'')
   \<and> range_order (sent \<lparr>received = [''p1'' \<mapsto> [''e2'', ''e1'', ''e2'']],
                         sent = [''p1'' \<mapsto> [''e1'', ''e2'']],
                         config = \<lparr>Ordered = True, OrderedConfig = ()\<rparr>,
                         terminated = False, metrics = ()\<rparr>) [''p1'']
   \<and> fst (Diff (\<lambda>x y. if x = y then [] else ''differ'') [''p1'']
            \<lparr>received = [''p1'' \<mapsto> [''e2'', ''e1'', ''e2'']], sent = [''p1'' \<mapsto> [''e1'', ''e2'']],
             config = \<lparr>Ordered = True, OrderedConfig = ()\<rparr>, terminated = False, metrics = ()\<rparr>)
       \<noteq> []
   \<and> fst (Diff (\<lambda>x y. if x = y then [] else ''differ'') [''p1'']
            \<lparr>received = [''p1'' \<mapsto> [''e2'', ''e1'', ''e2'']], sent = [''p1'' \<mapsto> [''e1'', ''e2'']],
             config = \<lparr>Ordered = False, OrderedConfig = ()\<rparr>, terminated = False, metrics = ()\<rparr>)
       = []
   \<and> fst (Diff (\<lambda>x y. if x = y then [] else ''differ'') [''p2'']
            \<lparr>received = [''p2'' \<mapsto> [''e2'', ''e1'']], sent = [''p2'' \<mapsto> [''e1'', ''e2'']],
             config = \<lparr>Ordered = True, OrderedConfig = ()\<rparr>, terminated = False, metrics = ()\<rparr>)
       \<noteq> []
   \<and> fst (Diff (\<lambda>x y. if x = y then [] else ''differ'') [''unknown'']
            \<lparr>received = [''unknown'' \<mapsto> [''e2'', ''e1'']],
             sent = [''unknown'' \<mapsto> [''e1'', ''e2'']],
             config = \<lparr>Ordered = False, OrderedConfig = ()\<rparr>, terminated = False, metrics = ()\<rparr>)
       = []"
proof -
  have c: "cmp_Diff_contract (\<lambda>x y. if x = y then [] else ''differ'')"
    by (simp add: cmp_Diff_contract_def)
  have ro: "range_order (sent \<lparr>received = [''p1'' \<mapsto> [''e2'', ''e1'', ''e2'']],
                         sent = [''p1'' \<mapsto> [''e1'', ''e2'']],
                         config = \<lparr>Ordered = True, OrderedConfig = ()\<rparr>,
                         terminated = False, metrics = ()\<rparr>) [''p1'']"
    by (simp add: range_order_def)
  have ro': "range_order (sent \<lparr>received = [''p1'' \<mapsto> [''e2'', ''e1'', ''e2'']],
                         sent = [''p1'' \<mapsto> [''e1'', ''e2'']],
                         config = \<lparr>Ordered = False, OrderedConfig = ()\<rparr>,
                         terminated = False, metrics = ()\<rparr>) [''p1'']"
    by (simp add: range_order_def)
  have rd: "fst (removeDuplicates [''e2'', ''e1'', ''e2'']) = [''e2'', ''e1'']"
    by (simp add: removeDuplicates_def)
  have srt: "sort_Strings [''e2'', ''e1''] = [''e1'', ''e2'']"
            "sort_Strings [''e1'', ''e2''] = [''e1'', ''e2'']"
    by (simp_all add: sort_Strings_def)
  note general = Diff_compares_sorted_or_as_is [OF c, THEN conjunct1, rule_format]
  note ordered = Diff_compares_sorted_or_as_is [OF c, THEN conjunct2, THEN conjunct1, rule_format,
      of "\<lparr>Ordered = True, OrderedConfig = ()\<rparr>" "''p2''" False "()"]
  note unordered = Diff_compares_sorted_or_as_is [OF c, THEN conjunct2, THEN conjunct2, rule_format,
      of "\<lparr>Ordered = False, OrderedConfig = ()\<rparr>" "''unknown''" False "()"]
  show ?thesis
    using c ro general [OF ro, THEN conjunct1, rule_format]
      general [OF ro', THEN conjunct2, THEN conjunct1, rule_format] ordered unordered
    by (simp add: rd srt)
qed

section \<open>Keys of the received ledger only\<close>

lemma ReceivedCount_sum_list:
  "fold (\<lambda>k count. case m k of None \<Rightarrow> count | Some v \<Rightarrow> count + length v) ks c
     = c + sum_list (map (\<lambda>k. length (slice_elems (m k))) ks)"
  by (induction ks arbitrary: c) (auto split: option.splits)

lemma ReceivedCount_sum:
  assumes "range_order (received s) rks"
  shows "ReceivedCount rks s = (\<Sum>k \<in> dom (received s). length (slice_elems (received s k)))"
  by (simp add: ReceivedCount_def ReceivedCount_sum_list range_order_sum_list [OF assms])

lemma GenerateReport_received_cong:
  assumes "\<forall>k \<in> set ks. rcv' k = received s k"
  shows "fst (GenerateReport ks (s\<lparr>received := rcv'\<rparr>)) = fst (GenerateReport ks s)"
proof (rule Report.equality)
  show "LostEventsByPartitionKey (fst (GenerateReport ks (s\<lparr>received := rcv'\<rparr>)))
      = LostEventsByPartitionKey (fst (GenerateReport ks s))"
    using assms by (auto simp: GenerateReport_def GenerateReport_fold_Lost fun_eq_iff)
  show "DuplicateEventsByPartitionKey (fst (GenerateReport ks (s\<lparr>received := rcv'\<rparr>)))
      = DuplicateEventsByPartitionKey (fst (GenerateReport ks s))"
    using assms by (auto simp: GenerateReport_def GenerateReport_fold_Duplicate fun_eq_iff)
  show "ReceivedEventsByPartitionKey (fst (GenerateReport ks (s\<lparr>received := rcv'\<rparr>)))
      = ReceivedEventsByPartitionKey (fst (GenerateReport ks s))"
    by (auto simp: GenerateReport_def GenerateReport_fold_Received fun_eq_iff)
  show "LostCount (fst (GenerateReport ks (s\<lparr>received := rcv'\<rparr>)))
      = LostCount (fst (GenerateReport ks s))"
    using assms
    by (auto simp: GenerateReport_def GenerateReport_fold_LostCount
          intro!: arg_cong [where f = sum_list] map_cong)
  show "DuplicateCount (fst (GenerateReport ks (s\<lparr>received := rcv'\<rparr>)))
      = DuplicateCount (fst (GenerateReport ks s))"
    using assms
    by (auto simp: GenerateReport_def GenerateReport_fold_DuplicateCount
          intro!: arg_cong [where f = sum_list] map_cong)
  show "ReceivedCount_field (fst (GenerateReport ks (s\<lparr>received := rcv'\<rparr>)))
      = ReceivedCount_field (fst (GenerateReport ks s))"
    by (simp add: GenerateReport_def GenerateReport_fold_ReceivedCount)
  show "Metrics (fst (GenerateReport ks (s\<lparr>received := rcv'\<rparr>)))
      = Metrics (fst (GenerateReport ks s))"
    by (simp add: GenerateReport_def GenerateReport_fold_Metrics)
  show "Terminated_field (fst (GenerateReport ks (s\<lparr>received := rcv'\<rparr>)))
      = Terminated_field (fst (GenerateReport ks s))"
    by (simp add: GenerateReport_def GenerateReport_fold_Metrics)
  show "Report.more (fst (GenerateReport ks (s\<lparr>received := rcv'\<rparr>)))
      = Report.more (fst (GenerateReport ks s))"
    by simp
qed

lemma Diff_received_cong:
  assumes "\<forall>k \<in> set ks. rcv' k = received s k"
  shows "fst (Diff d ks (s\<lparr>received := rcv'\<rparr>)) = fst (Diff d ks s)"
proof -
  define g where "g rc k =
      d ((if Ordered (config s) then (\<lambda>x. x) else map_option sort_Strings)
           (map_option (\<lambda>a. fst (removeDuplicates a)) (rc k)))
        ((if Ordered (config s) then (\<lambda>x. x) else map_option sort_Strings) (sent s k))"
    for rc :: ledger and k
  have Dt: "fst (Diff d ks (s\<lparr>received := rc\<rparr>)) =
      (if \<forall>k \<in> set ks. sent s k \<noteq> None \<longrightarrow> g rc k = [] then []
       else ''Diff by partition key'' @ [CHR 0x0A] @
            concat (map (\<lambda>k. Sprintf_partitionkey k (g rc k))
              (filter (\<lambda>k. sent s k \<noteq> None) ks)))" for rc
    unfolding g_def by (subst Diff_text) auto
  have eq: "\<forall>k \<in> set ks. g rcv' k = g (received s) k"
    using assms by (simp add: g_def)
  have m: "map (\<lambda>k. Sprintf_partitionkey k (g rcv' k)) (filter (\<lambda>k. sent s k \<noteq> None) ks)
         = map (\<lambda>k. Sprintf_partitionkey k (g (received s) k))
             (filter (\<lambda>k. sent s k \<noteq> None) ks)"
    using eq by (intro map_cong) auto
  have a: "(\<forall>k \<in> set ks. sent s k \<noteq> None \<longrightarrow> g rcv' k = [])
         = (\<forall>k \<in> set ks. sent s k \<noteq> None \<longrightarrow> g (received s) k = [])"
    using eq by auto
  have "fst (Diff d ks (s\<lparr>received := rcv'\<rparr>)) = fst (Diff d ks (s\<lparr>received := received s\<rparr>))"
    by (simp only: Dt m a)
  then show ?thesis by simp
qed

text \<open>
  C8, as amended. For every ledger state, the entries of the received ledger under keys that
  the sent ledger does not have contribute nothing to the output of \<^verbatim>\<open>Diff\<close>, and nothing to
  the report of \<^verbatim>\<open>GenerateReport\<close> either: both range over the keys of the sent ledger, and
  replacing the received ledger by one that agrees with it on those keys changes neither.
  The events under such keys are counted by the method \<^verbatim>\<open>ReceivedCount\<close> of the manager, which
  sums the lengths over all keys of the received ledger.
\<close>

theorem received_only_keys_ignored_by_Diff_and_report:
  assumes "range_order (sent s) ks" and "range_order (received s) rks"
  shows "(\<forall>rcv'. (\<forall>k \<in> dom (sent s). rcv' k = received s k) \<longrightarrow>
            fst (Diff d ks (s\<lparr>received := rcv'\<rparr>)) = fst (Diff d ks s)
          \<and> fst (GenerateReport ks (s\<lparr>received := rcv'\<rparr>)) = fst (GenerateReport ks s))
       \<and> ReceivedCount rks s
           = (\<Sum>k \<in> dom (received s) \<inter> dom (sent s). length (slice_elems (received s k)))
           + (\<Sum>k \<in> dom (received s) - dom (sent s). length (slice_elems (received s k)))"
proof -
  have ks: "set ks = dom (sent s)"
    using assms(1) by (simp add: range_order_def)
  have fin: "finite (dom (received s))"
    using assms(2) by (metis List.finite_set range_order_def)
  have a: "fst (Diff d ks (s\<lparr>received := rcv'\<rparr>)) = fst (Diff d ks s)
          \<and> fst (GenerateReport ks (s\<lparr>received := rcv'\<rparr>)) = fst (GenerateReport ks s)"
    if "\<forall>k \<in> dom (sent s). rcv' k = received s k" for rcv'
    using that Diff_received_cong [of ks rcv' s d] GenerateReport_received_cong [of ks rcv' s]
    by (simp add: ks)
  have b: "ReceivedCount rks s
           = (\<Sum>k \<in> dom (received s) \<inter> dom (sent s). length (slice_elems (received s k)))
           + (\<Sum>k \<in> dom (received s) - dom (sent s). length (slice_elems (received s k)))"
    using sum.Int_Diff [OF fin, of "\<lambda>k. length (slice_elems (received s k))" "dom (sent s)"]
    by (simp add: ReceivedCount_sum [OF assms(2)])
  from a b show ?thesis by blast
qed

text \<open>
  The claim C8 as stated fails: with nothing sent and the event \<^verbatim>\<open>e1\<close> received under \<^verbatim>\<open>p1\<close>,
  the report has \<^verbatim>\<open>ReceivedCount = 0\<close> and no received entry for \<^verbatim>\<open>p1\<close>, while the method
  \<^verbatim>\<open>ReceivedCount\<close> returns 1.
\<close>

theorem received_only_keys_not_in_report_counterexample:
  "received \<lparr>received = [''p1'' \<mapsto> [''e1'']], sent = Map.empty,
             config = \<lparr>Ordered = True, OrderedConfig = ()\<rparr>, terminated = False, metrics = ()\<rparr>
      ''p1'' = Some [''e1'']
   \<and> sent \<lparr>received = [''p1'' \<mapsto> [''e1'']], sent = Map.empty,
           config = \<lparr>Ordered = True, OrderedConfig = ()\<rparr>, terminated = False, metrics = ()\<rparr>
      ''p1'' = None
   \<and> range_order (sent \<lparr>received = [''p1'' \<mapsto> [''e1'']], sent = Map.empty,
           config = \<lparr>Ordered = True, OrderedConfig = ()\<rparr>, terminated = False, metrics = ()\<rparr>) []
   \<and> ReceivedCount_field (fst (GenerateReport []
          \<lparr>received = [''p1'' \<mapsto> [''e1'']], sent = Map.empty,
           config = \<lparr>Ordered = True, OrderedConfig = ()\<rparr>, terminated = False, metrics = ()\<rparr>)) = 0
   \<and> ReceivedEventsByPartitionKey (fst (GenerateReport []
          \<lparr>received = [''p1'' \<mapsto> [''e1'']], sent = Map.empty,
           config = \<lparr>Ordered = True, OrderedConfig = ()\<rparr>, terminated = False, metrics = ()\<rparr>))
        ''p1'' = None
   \<and> ReceivedCount [''p1'']
          \<lparr>received = [''p1'' \<mapsto> [''e1'']], sent = Map.empty,
           config = \<lparr>Ordered = True, OrderedConfig = ()\<rparr>, terminated = False, metrics = ()\<rparr> = 1"
  by (simp add: range_order_def GenerateReport_def ReceivedCount_def)

theorem received_only_keys_ignored_by_Diff_and_report_witness:
  "range_order (sent \<lparr>received = [''p1'' \<mapsto> [''e1''], ''p2'' \<mapsto> [''e2'', ''e3'']],
                       sent = [''p1'' \<mapsto> [''e1'']],
                       config = \<lparr>Ordered = True, OrderedConfig = ()\<rparr>,
                       terminated = False, metrics = ()\<rparr>) [''p1'']
   \<and> range_order (received \<lparr>received = [''p1'' \<mapsto> [''e1''], ''p2'' \<mapsto> [''e2'', ''e3'']],
                       sent = [''p1'' \<mapsto> [''e1'']],
                       config = \<lparr>Ordered = True, OrderedConfig = ()\<rparr>,
                       terminated = False, metrics = ()\<rparr>) [''p1'', ''p2'']
   \<and> fst (Diff (\<lambda>x y. if x = y then [] else ''differ'') [''p1'']
           \<lparr>received = [''p1'' \<mapsto> [''e1'']], sent = [''p1'' \<mapsto> [''e1'']],
            config = \<lparr>Ordered = True, OrderedConfig = ()\<rparr>, terminated = False, metrics = ()\<rparr>)
     = fst (Diff (\<lambda>x y. if x = y then [] else ''differ'') [''p1'']
           \<lparr>received = [''p1'' \<mapsto> [''e1''], ''p2'' \<mapsto> [''e2'', ''e3'']],
            sent = [''p1'' \<mapsto> [''e1'']],
            config = \<lparr>Ordered = True, OrderedConfig = ()\<rparr>, terminated = False, metrics = ()\<rparr>)
   \<and> ReceivedCount [''p1'', ''p2'']
           \<lparr>received = [''p1'' \<mapsto> [''e1''], ''p2'' \<mapsto> [''e2'', ''e3'']],
            sent = [''p1'' \<mapsto> [''e1'']],
            config = \<lparr>Ordered = True, OrderedConfig = ()\<rparr>, terminated = False, metrics = ()\<rparr>
     = 1 + 2"
proof -
  have ro: "range_order (sent \<lparr>received = [''p1'' \<mapsto> [''e1''], ''p2'' \<mapsto> [''e2'', ''e3'']],
                       sent = [''p1'' \<mapsto> [''e1'']],
                       config = \<lparr>Ordered = True, OrderedConfig = ()\<rparr>,
                       terminated = False, metrics = ()\<rparr>) [''p1'']"
    by (simp add: range_order_def)
  have ro': "range_order (received \<lparr>received = [''p1'' \<mapsto> [''e1''], ''p2'' \<mapsto> [''e2'', ''e3'']],
                       sent = [''p1'' \<mapsto> [''e1'']],
                       config = \<lparr>Ordered = True, OrderedConfig = ()\<rparr>,
                       terminated = False, metrics = ()\<rparr>) [''p1'', ''p2'']"
    by (auto simp: range_order_def)
  have d1: "{''p2'', ''p1''} \<inter> {''p1''} = {''p1''}"
    by auto
  have d2: "{''p2'', ''p1''} - {''p1''} = {''p2''}"
    by auto
  note inst = received_only_keys_ignored_by_Diff_and_report [OF ro ro',
      of "\<lambda>x y. if x = y then [] else ''differ''"]
  show ?thesis
    using ro ro' inst [THEN conjunct1, rule_format, of "[''p1'' \<mapsto> [''e1'']]", THEN conjunct1]
      inst [THEN conjunct2]
    by (simp add: d1 d2)
qed

section \<open>Termination\<close>

lemma GenerateReport_state:
  "snd (GenerateReport ks s) =
     (if Ordered (config s) then s
      else s\<lparr>sent := (\<lambda>k. if k \<in> set ks then map_option sort_Strings (sent s k) else sent s k)\<rparr>)"
  by (simp add: GenerateReport_def GenerateReport_fold_state)

lemma GenerateReport_Terminated_Metrics:
  "Terminated_field (fst (GenerateReport ks s)) = terminated s
   \<and> Metrics (fst (GenerateReport ks s)) = metrics s"
  by (simp add: GenerateReport_def GenerateReport_fold_Metrics)

lemma exec_call_terminated:
  "exec_call d c s = Inr s' \<Longrightarrow> terminated s \<Longrightarrow> terminated s'"
  by (cases c)
     (auto simp: ReadSent_step_def ReadReceived_step_def Diff_state GenerateReport_state
        Terminated_def split: sum.splits if_splits)

lemma exec_call_metrics:
  "exec_call d c s = Inr s' \<Longrightarrow> \<not> is_CallTerminated c \<Longrightarrow> metrics s' = metrics s"
  by (cases c)
     (auto simp: ReadSent_step_def ReadReceived_step_def Diff_state GenerateReport_state
        split: sum.splits if_splits)

lemma exec_calls_terminated:
  "exec_calls d cs s = Inr s' \<Longrightarrow> terminated s \<Longrightarrow> terminated s'"
proof (induction cs arbitrary: s)
  case Nil
  then show ?case by simp
next
  case (Cons c cs)
  then show ?case
    by (auto split: sum.splits dest: exec_call_terminated)
qed

lemma exec_calls_metrics:
  "exec_calls d cs s = Inr s' \<Longrightarrow> \<not> list_ex is_CallTerminated cs \<Longrightarrow> metrics s' = metrics s"
proof (induction cs arbitrary: s)
  case Nil
  then show ?case by simp
next
  case (Cons c cs)
  then show ?case
    by (auto split: sum.splits dest: exec_call_metrics)
qed

text \<open>
  C6. After \<^verbatim>\<open>Terminated(m)\<close>, whatever calls follow (events read from either channel,
  \<^verbatim>\<open>ReceivedCount\<close>, \<^verbatim>\<open>Diff\<close>, \<^verbatim>\<open>GenerateReport\<close>, \<^verbatim>\<open>Terminated\<close>) and do not panic, the manager
  is terminated and a report generated then has \<^verbatim>\<open>Terminated = true\<close>: no call leads back. If
  none of the calls that follow is \<^verbatim>\<open>Terminated\<close> (the manager is marked terminated once), the
  report has \<^verbatim>\<open>Metrics = m\<close>.
\<close>

theorem Terminated_is_final:
  assumes "exec_calls d cs (Terminated m s) = Inr s'"
  shows "terminated s'
       \<and> Terminated_field (fst (GenerateReport ks s')) = True
       \<and> (\<not> list_ex is_CallTerminated cs \<longrightarrow>
            metrics s' = m \<and> Metrics (fst (GenerateReport ks s')) = m)"
proof -
  have t: "terminated s'"
    using exec_calls_terminated [OF assms] by (simp add: Terminated_def)
  have m: "metrics s' = m" if "\<not> list_ex is_CallTerminated cs"
    using exec_calls_metrics [OF assms that] by (simp add: Terminated_def)
  show ?thesis
    using t m by (simp add: GenerateReport_Terminated_Metrics)
qed

theorem Terminated_is_final_witness:
  "(\<exists>s'. exec_calls (\<lambda>x y. if x = y then [] else ''differ'')
            [SentEvent \<lparr>ID = ''e2'', Extensions = Map.empty\<rparr>,
             ReceivedEvent \<lparr>ID = ''e2'', Extensions = Map.empty\<rparr>,
             CallGenerateReport [''unknown''],
             SentEvent \<lparr>ID = ''e1'', Extensions = Map.empty\<rparr>]
            (Terminated (7::nat) (NewStateManager 0 \<lparr>Ordered = False, OrderedConfig = ()\<rparr>))
          = Inr s'
        \<and> sent s' ''unknown'' = Some [''e2'', ''e1'']
        \<and> Terminated_field (fst (GenerateReport [''unknown''] s')) = True
        \<and> Metrics (fst (GenerateReport [''unknown''] s')) = 7)"
proof -
  have run: "\<exists>s'. exec_calls (\<lambda>x y. if x = y then [] else ''differ'')
            [SentEvent \<lparr>ID = ''e2'', Extensions = Map.empty\<rparr>,
             ReceivedEvent \<lparr>ID = ''e2'', Extensions = Map.empty\<rparr>,
             CallGenerateReport [''unknown''],
             SentEvent \<lparr>ID = ''e1'', Extensions = Map.empty\<rparr>]
            (Terminated (7::nat) (NewStateManager 0 \<lparr>Ordered = False, OrderedConfig = ()\<rparr>))
          = Inr s' \<and> sent s' ''unknown'' = Some [''e2'', ''e1'']"
    by (simp add: Terminated_def NewStateManager_def ReadSent_step_def ReadReceived_step_def
          insert_ev_def unknownPartitionKey_def GenerateReport_state sort_Strings_def)
  then obtain s' where s': "exec_calls (\<lambda>x y. if x = y then [] else ''differ'')
            [SentEvent \<lparr>ID = ''e2'', Extensions = Map.empty\<rparr>,
             ReceivedEvent \<lparr>ID = ''e2'', Extensions = Map.empty\<rparr>,
             CallGenerateReport [''unknown''],
             SentEvent \<lparr>ID = ''e1'', Extensions = Map.empty\<rparr>]
            (Terminated (7::nat) (NewStateManager 0 \<lparr>Ordered = False, OrderedConfig = ()\<rparr>))
          = Inr s'" and snt: "sent s' ''unknown'' = Some [''e2'', ''e1'']"
    by blast
  show ?thesis
    using s' snt Terminated_is_final [OF s', of "[''unknown'']"]
    by simp
qed

end
